theory Spec2Isabelle
  imports Complex_Main "HOL-Library.AList" "HOL-Library.Multiset"
begin

section \<open>Python strings\<close>

text \<open>
  The notebook works on Python \<open>str\<close> values. A string is modelled as a list of
  characters; the cased characters are the ASCII letters, every other character is
  uncased (so \<open>isupper\<close> and \<open>lower\<close> below are Python's \<open>str.isupper\<close> and
  \<open>str.lower\<close> on ASCII text).
\<close>

definition ascii_uppercase :: string where
  "ascii_uppercase = ''ABCDEFGHIJKLMNOPQRSTUVWXYZ''"

definition ascii_lowercase :: string where
  "ascii_lowercase = ''abcdefghijklmnopqrstuvwxyz''"

definition char_isupper :: "char \<Rightarrow> bool" where
  "char_isupper c = (c \<in> set ascii_uppercase)"

definition char_islower :: "char \<Rightarrow> bool" where
  "char_islower c = (c \<in> set ascii_lowercase)"

definition char_lower :: "char \<Rightarrow> char" where
  "char_lower c =
     (case map_of (zip ascii_uppercase ascii_lowercase) c of Some l \<Rightarrow> l | None \<Rightarrow> c)"

text \<open>
  \<open>str.isupper()\<close>: at least one cased character, and no cased character is lower-case.
\<close>

definition isupper :: "string \<Rightarrow> bool" where
  "isupper w = (list_ex char_isupper w \<and> list_all (\<lambda>c. \<not> char_islower c) w)"

definition lower :: "string \<Rightarrow> string" where
  "lower w = map char_lower w"

text \<open>
  \<open>sub in s\<close> on two strings is the substring test: \<open>sub\<close> occurs in \<open>s\<close> as a
  contiguous run of characters (the empty string occurs in every string).
\<close>

fun startswith :: "string \<Rightarrow> string \<Rightarrow> bool" where
  "startswith s [] = True"
| "startswith [] (p # ps) = False"
| "startswith (c # cs) (p # ps) = (c = p \<and> startswith cs ps)"

fun str_contains :: "string \<Rightarrow> string \<Rightarrow> bool" where
  "str_contains [] sub = (sub = [])"
| "str_contains (c # cs) sub = (startswith (c # cs) sub \<or> str_contains cs sub)"

text \<open>
  \<open>string.punctuation\<close> of the Python standard library, the 32 characters
  \<^verbatim>\<open>!"#$%&'()*+,-./:;<=>?@[\]^_`{|}~\<close> in this order.
\<close>

definition punctuation :: string where
  "punctuation =
     [CHR 0x21, CHR 0x22, CHR 0x23, CHR 0x24, CHR 0x25, CHR 0x26, CHR 0x27, CHR 0x28,
      CHR 0x29, CHR 0x2A, CHR 0x2B, CHR 0x2C, CHR 0x2D, CHR 0x2E, CHR 0x2F, CHR 0x3A,
      CHR 0x3B, CHR 0x3C, CHR 0x3D, CHR 0x3E, CHR 0x3F, CHR 0x40, CHR 0x5B, CHR 0x5C,
      CHR 0x5D, CHR 0x5E, CHR 0x5F, CHR 0x60, CHR 0x7B, CHR 0x7C, CHR 0x7D, CHR 0x7E]"

section \<open>Text normalization\<close>

text \<open>
  The sentence splitter, the word tokenizer and the stemmer are NLTK's
  (\<open>sent_tokenize\<close>, \<open>word_tokenize\<close>, \<open>SnowballStemmer('english').stem\<close>); the
  notebook only calls them, so they are parameters of the model.
\<close>

record nltk =
  sent_tokenize :: "string \<Rightarrow> string list"
  word_tokenize :: "string \<Rightarrow> string list"
  stem :: "string \<Rightarrow> string"

text \<open>
  \<^verbatim>\<open>
  def tokenize_and_lowercase(doc_str):
      return [
          word if (word.isupper() or i > 0) and len(word) > 1 else word.lower()
          for sent in sent_tokenize(doc_str) for i, word in enumerate(word_tokenize(sent))
          if word not in punctuation
      ]
  \<close>
  The position \<open>i\<close> counts every token of the sentence, the dropped ones too.
\<close>

definition tokenize_and_lowercase :: "nltk \<Rightarrow> string \<Rightarrow> string list" where
  "tokenize_and_lowercase L doc_str =
     concat (map (\<lambda>sent.
         map (\<lambda>(i, word). if (isupper word \<or> 0 < i) \<and> 1 < length word then word else lower word)
           (filter (\<lambda>(i, word). \<not> str_contains punctuation word)
              (enumerate 0 (word_tokenize L sent))))
       (sent_tokenize L doc_str))"

text \<open>
  \<^verbatim>\<open>all_stopwords = list(set(stopwords.words('english')).union(set(bio_stopwords)))\<close>
  Only membership in the merged list is ever used.
\<close>

definition all_stopwords :: "string list \<Rightarrow> string list \<Rightarrow> string list" where
  "all_stopwords english bio_stopwords = remdups (english @ bio_stopwords)"

text \<open>
  \<^verbatim>\<open>
  def all_preprocess(doc_str):
      return [
          stemmer.stem(word) for word in tokenize_and_lowercase(doc_str)
          if word not in all_stopwords
      ]
  \<close>
\<close>

definition all_preprocess :: "nltk \<Rightarrow> string list \<Rightarrow> string \<Rightarrow> string list" where
  "all_preprocess L stopwords doc_str =
     map (stem L)
       (filter (\<lambda>word. word \<notin> set stopwords) (tokenize_and_lowercase L doc_str))"

subsection \<open>Positions of tokens in the output\<close>

text \<open>
  The comprehension is one flat list. To speak about "the token at position \<open>i\<close> of
  sentence \<open>k\<close>" its place in the output is needed: the number of tokens that pass the
  punctuation test before it. \<open>kept\<close> is that test on a token list, \<open>out_index\<close> the
  place, and \<open>sentence_tokens\<close> the part of the comprehension that one sentence yields
  (with the enumeration starting at \<open>n\<close>).
\<close>

definition kept :: "string list \<Rightarrow> string list" where
  "kept toks = filter (\<lambda>word. \<not> str_contains punctuation word) toks"

definition out_index :: "nltk \<Rightarrow> string \<Rightarrow> nat \<Rightarrow> nat \<Rightarrow> nat" where
  "out_index L doc_str k i =
     length (concat (map (\<lambda>sent. kept (word_tokenize L sent)) (take k (sent_tokenize L doc_str))))
     + length (kept (take i (word_tokenize L (sent_tokenize L doc_str ! k))))"

definition case_fold :: "nat \<times> string \<Rightarrow> string" where
  "case_fold =
     (\<lambda>(i, word). if (isupper word \<or> 0 < i) \<and> 1 < length word then word else lower word)"

definition sentence_tokens :: "nat \<Rightarrow> string list \<Rightarrow> string list" where
  "sentence_tokens n toks =
     map case_fold (filter (\<lambda>(i, word). \<not> str_contains punctuation word) (enumerate n toks))"

text \<open>
  Python's \<open>string.whitespace\<close>: space, tab, line feed, carriage return, vertical tab,
  form feed. A document is blank when it is empty or has only such characters.
\<close>

definition whitespace :: string where
  "whitespace = [CHR 0x20, CHR 0x09, CHR 0x0A, CHR 0x0D, CHR 0x0B, CHR 0x0C]"

definition whitespace_only :: "string \<Rightarrow> bool" where
  "whitespace_only doc_str = list_all (\<lambda>c. c \<in> set whitespace) doc_str"

section \<open>Compaction of the similarity matrix\<close>

text \<open>
  \<^verbatim>\<open>
  sims_df = pd.DataFrame(cosine_sims, index = interesting_articles.index,
                         columns = interesting_articles.index)
  similarities_dict = {
      from_idx : {
          to_idx : sim_value
          for to_idx, sim_value in sim_series.nlargest(100).items()
      }
      for from_idx, sim_series in sims_df.iterrows()
  }
  \<close>
  A pandas series is a list of (label, value) pairs. The similarity scores are only
  compared, never computed with, so they are values of any linear order.
  \<open>Series.nlargest(n)\<close> is the library's documented operation: the first \<open>n\<close> entries
  of the series in descending order of value, entries of equal value in their original
  order. A Python dict is an association list in insertion order; storing under a key
  that is present replaces the value in place (\<open>AList.update\<close>).
\<close>

fun insert_desc :: "'k \<times> ('v::linorder) \<Rightarrow> ('k \<times> 'v) list \<Rightarrow> ('k \<times> 'v) list" where
  "insert_desc x [] = [x]"
| "insert_desc x (y # ys) = (if snd y \<le> snd x then x # y # ys else y # insert_desc x ys)"

definition sort_values_desc :: "('k \<times> ('v::linorder)) list \<Rightarrow> ('k \<times> 'v) list" where
  "sort_values_desc s = foldr insert_desc s []"

definition nlargest :: "nat \<Rightarrow> ('k \<times> ('v::linorder)) list \<Rightarrow> ('k \<times> 'v) list" where
  "nlargest n s = take n (sort_values_desc s)"

definition dict_of :: "('k \<times> 'v) list \<Rightarrow> ('k \<times> 'v) list" where
  "dict_of kvs = foldl (\<lambda>d (k, v). AList.update k v d) [] kvs"

definition iterrows ::
    "'k list \<Rightarrow> 'c list \<Rightarrow> 'v list list \<Rightarrow> ('k \<times> ('c \<times> 'v) list) list" where
  "iterrows index columns data = zip index (map (zip columns) data)"

text \<open>The notebook's \<open>top_n\<close> is 100; \<open>index\<close> holds the document ids.\<close>

definition similarities_dict ::
    "nat \<Rightarrow> 'k list \<Rightarrow> ('v::linorder) list list \<Rightarrow> ('k \<times> ('k \<times> 'v) list) list" where
  "similarities_dict top_n index cosine_sims =
     dict_of (map (\<lambda>(from_idx, sim_series). (from_idx, dict_of (nlargest top_n sim_series)))
       (iterrows index index cosine_sims))"

section \<open>Facts about the normalizer\<close>

lemma sentence_tokens_Nil: "sentence_tokens n [] = []"
  by (simp add: sentence_tokens_def)

lemma sentence_tokens_Cons:
  "sentence_tokens n (w # ws) =
     (if str_contains punctuation w then sentence_tokens (Suc n) ws
      else case_fold (n, w) # sentence_tokens (Suc n) ws)"
  by (simp add: sentence_tokens_def)

lemma length_sentence_tokens: "length (sentence_tokens n toks) = length (kept toks)"
  by (induction toks arbitrary: n) (simp_all add: sentence_tokens_Nil sentence_tokens_Cons kept_def)

lemma kept_take_less:
  "i < length toks \<Longrightarrow> \<not> str_contains punctuation (toks ! i) \<Longrightarrow>
     length (kept (take i toks)) < length (kept toks)"
proof (induction toks arbitrary: i)
  case Nil
  then show ?case by simp
next
  case (Cons w ws)
  show ?case
  proof (cases i)
    case 0
    with Cons.prems show ?thesis by (simp add: kept_def)
  next
    case (Suc j)
    with Cons.prems have "length (kept (take j ws)) < length (kept ws)"
      by (intro Cons.IH) simp_all
    with Suc show ?thesis by (simp add: kept_def)
  qed
qed

lemma sentence_tokens_nth:
  "i < length toks \<Longrightarrow> \<not> str_contains punctuation (toks ! i) \<Longrightarrow>
     sentence_tokens n toks ! length (kept (take i toks)) = case_fold (n + i, toks ! i)"
proof (induction toks arbitrary: n i)
  case Nil
  then show ?case by simp
next
  case (Cons w ws)
  show ?case
  proof (cases i)
    case 0
    with Cons.prems show ?thesis by (simp add: sentence_tokens_Cons kept_def)
  next
    case (Suc j)
    with Cons.prems have
      "sentence_tokens (Suc n) ws ! length (kept (take j ws)) = case_fold (Suc n + j, ws ! j)"
      by (intro Cons.IH) simp_all
    with Suc show ?thesis by (simp add: sentence_tokens_Cons kept_def)
  qed
qed

lemma tokenize_and_lowercase_concat:
  "tokenize_and_lowercase L doc_str =
     concat (map (\<lambda>sent. sentence_tokens 0 (word_tokenize L sent)) (sent_tokenize L doc_str))"
  by (simp add: tokenize_and_lowercase_def sentence_tokens_def case_fold_def)

lemma concat_map_nth:
  assumes "k < length xs" and "j < length (g (xs ! k))"
  shows "length (concat (map g (take k xs))) + j < length (concat (map g xs))"
    and "concat (map g xs) ! (length (concat (map g (take k xs))) + j) = g (xs ! k) ! j"
proof -
  from assms(1) have split: "xs = take k xs @ xs ! k # drop (Suc k) xs"
    by (rule id_take_nth_drop)
  have eq: "concat (map g xs) =
      concat (map g (take k xs)) @ g (xs ! k) @ concat (map g (drop (Suc k) xs))"
    by (subst split) simp
  show "length (concat (map g (take k xs))) + j < length (concat (map g xs))"
    using assms(2) by (subst eq) simp
  show "concat (map g xs) ! (length (concat (map g (take k xs))) + j) = g (xs ! k) ! j"
    using assms(2) by (subst eq) (simp add: nth_append)
qed

lemma concat_map_length_cong:
  "(\<And>x. length (f x) = length (g x)) \<Longrightarrow>
     length (concat (map f xs)) = length (concat (map g xs))"
  by (induction xs) simp_all

text \<open>
  The token at position \<open>i\<close> of sentence \<open>k\<close>, when it passes the punctuation test,
  is at \<open>out_index L doc_str k i\<close> of the output, case-folded with its position.
\<close>

lemma tokenize_and_lowercase_nth:
  assumes "k < length (sent_tokenize L doc_str)"
    and "i < length (word_tokenize L (sent_tokenize L doc_str ! k))"
    and "word = word_tokenize L (sent_tokenize L doc_str ! k) ! i"
    and "\<not> str_contains punctuation word"
  shows "out_index L doc_str k i < length (tokenize_and_lowercase L doc_str)"
    and "tokenize_and_lowercase L doc_str ! out_index L doc_str k i =
           (if (isupper word \<or> 0 < i) \<and> 1 < length word then word else lower word)"
proof -
  let ?g = "\<lambda>sent. sentence_tokens 0 (word_tokenize L sent)"
  let ?toks = "word_tokenize L (sent_tokenize L doc_str ! k)"
  let ?j = "length (kept (take i ?toks))"
  have pre: "length (concat (map (\<lambda>sent. kept (word_tokenize L sent))
        (take k (sent_tokenize L doc_str))))
      = length (concat (map ?g (take k (sent_tokenize L doc_str))))"
    by (rule concat_map_length_cong) (simp add: length_sentence_tokens)
  have j: "?j < length (?g (sent_tokenize L doc_str ! k))"
    using assms by (simp add: length_sentence_tokens kept_take_less)
  have idx: "out_index L doc_str k i =
      length (concat (map ?g (take k (sent_tokenize L doc_str)))) + ?j"
    by (simp add: out_index_def pre)
  have "?g (sent_tokenize L doc_str ! k) ! ?j = case_fold (0 + i, ?toks ! i)"
    using assms by (intro sentence_tokens_nth) simp_all
  then have val: "?g (sent_tokenize L doc_str ! k) ! ?j =
      (if (isupper word \<or> 0 < i) \<and> 1 < length word then word else lower word)"
    by (simp only: assms(3) case_fold_def prod.case add_0)
  note cm = concat_map_nth[where k = k and xs = "sent_tokenize L doc_str" and g = ?g and j = ?j,
      OF assms(1) j]
  show "out_index L doc_str k i < length (tokenize_and_lowercase L doc_str)"
    unfolding tokenize_and_lowercase_concat idx by (rule cm(1))
  show "tokenize_and_lowercase L doc_str ! out_index L doc_str k i =
      (if (isupper word \<or> 0 < i) \<and> 1 < length word then word else lower word)"
    unfolding tokenize_and_lowercase_concat idx by (simp only: cm(2) val)
qed



lemma no_tokens_no_output:
  assumes "concat (map (word_tokenize L) (sent_tokenize L doc_str)) = []"
  shows "tokenize_and_lowercase L doc_str = []"
proof -
  from assms have "\<forall>sent\<in>set (sent_tokenize L doc_str). word_tokenize L sent = []"
    by simp
  then show ?thesis
    by (simp add: tokenize_and_lowercase_concat sentence_tokens_Nil)
qed

section \<open>The case-folding policy\<close>

text \<open>
  C1. For every sentence \<open>k\<close> of the document and every token \<open>word\<close> at position
  \<open>i\<close> of that sentence that passes the punctuation test, the output holds at the
  token's place either the token itself, when (it is upper-case or \<open>i > 0\<close>) and it has
  more than one character, or else the token lowercased. In particular a token of one
  character is lowercased at every position, an upper-case token of several characters
  is kept at every position, position 0 included, and a token at position 0 that is not
  upper-case is lowercased.
\<close>

theorem tokenize_and_lowercase_case_policy:
  assumes "k < length (sent_tokenize L doc_str)"
    and "i < length (word_tokenize L (sent_tokenize L doc_str ! k))"
    and "word = word_tokenize L (sent_tokenize L doc_str ! k) ! i"
    and "\<not> str_contains punctuation word"
  shows "out_index L doc_str k i < length (tokenize_and_lowercase L doc_str) \<and>
         tokenize_and_lowercase L doc_str ! out_index L doc_str k i =
           (if (isupper word \<or> 0 < i) \<and> 1 < length word then word else lower word) \<and>
         (length word = 1 \<longrightarrow>
            tokenize_and_lowercase L doc_str ! out_index L doc_str k i = lower word) \<and>
         (isupper word \<and> 1 < length word \<longrightarrow>
            tokenize_and_lowercase L doc_str ! out_index L doc_str k i = word) \<and>
         (i = 0 \<and> \<not> isupper word \<longrightarrow>
            tokenize_and_lowercase L doc_str ! out_index L doc_str k i = lower word)"
proof -
  note nth = tokenize_and_lowercase_nth[OF assms]
  have single: "tokenize_and_lowercase L doc_str ! out_index L doc_str k i = lower word"
    if "length word = 1"
    using that by (simp add: nth(2))
  have acronym: "tokenize_and_lowercase L doc_str ! out_index L doc_str k i = word"
    if "isupper word \<and> 1 < length word"
    using that by (simp add: nth(2))
  have initial: "tokenize_and_lowercase L doc_str ! out_index L doc_str k i = lower word"
    if "i = 0 \<and> \<not> isupper word"
    using that nth(2) by simp
  from nth single acronym initial show ?thesis by blast
qed

theorem tokenize_and_lowercase_case_policy_witness:
  "\<not> str_contains punctuation ''This'' \<and>
   tokenize_and_lowercase
     \<lparr>sent_tokenize = \<lambda>d. [d], word_tokenize = \<lambda>s. [''This'', ''BRCA1'', ''test'', ''.''],
      stem = \<lambda>w. w\<rparr> ''This BRCA1 test.'' ! 0 = ''this'' \<and>
   tokenize_and_lowercase
     \<lparr>sent_tokenize = \<lambda>d. [d], word_tokenize = \<lambda>s. [''This'', ''BRCA1'', ''test'', ''.''],
      stem = \<lambda>w. w\<rparr> ''This BRCA1 test.'' ! 1 = ''BRCA1'' \<and>
   tokenize_and_lowercase
     \<lparr>sent_tokenize = \<lambda>d. [d],
      word_tokenize = \<lambda>s. [''BRCA1'', ''is'', ''an'', ''important'', ''gene'', ''.''],
      stem = \<lambda>w. w\<rparr> ''BRCA1 is an important gene.'' ! 0 = ''BRCA1''"
proof -
  have p: "\<not> str_contains punctuation ''This''" "\<not> str_contains punctuation ''BRCA1''"
    by (simp_all add: punctuation_def)
  have u: "\<not> isupper ''This''" "isupper ''BRCA1''"
    by (simp_all add: isupper_def char_isupper_def char_islower_def
        ascii_uppercase_def ascii_lowercase_def)
  have l: "lower ''This'' = ''this''"
    by (simp add: lower_def char_lower_def ascii_uppercase_def ascii_lowercase_def)
  show ?thesis
    using
      tokenize_and_lowercase_case_policy[where
        L = "\<lparr>sent_tokenize = \<lambda>d. [d],
              word_tokenize = \<lambda>s. [''This'', ''BRCA1'', ''test'', ''.''], stem = \<lambda>w. w\<rparr>"
        and doc_str = "''This BRCA1 test.''" and k = 0 and i = 0 and word = "''This''"]
      tokenize_and_lowercase_case_policy[where
        L = "\<lparr>sent_tokenize = \<lambda>d. [d],
              word_tokenize = \<lambda>s. [''This'', ''BRCA1'', ''test'', ''.''], stem = \<lambda>w. w\<rparr>"
        and doc_str = "''This BRCA1 test.''" and k = 0 and i = 1 and word = "''BRCA1''"]
      tokenize_and_lowercase_case_policy[where
        L = "\<lparr>sent_tokenize = \<lambda>d. [d],
              word_tokenize = \<lambda>s. [''BRCA1'', ''is'', ''an'', ''important'', ''gene'', ''.''],
              stem = \<lambda>w. w\<rparr>"
        and doc_str = "''BRCA1 is an important gene.''" and k = 0 and i = 0
        and word = "''BRCA1''"]
    by (simp add: p u l out_index_def kept_def)
qed

section \<open>Punctuation and stopwords\<close>

text \<open>
  C2. The document \<open>Wait ... now\<close> is one sentence of the three tokens \<open>Wait\<close>,
  \<open>...\<close> and \<open>now\<close>. The ellipsis is not a substring of \<open>string.punctuation\<close>,
  so the test \<open>word not in punctuation\<close> lets it through, and it is in the output of
  the pipeline, although it has only punctuation characters. The stopword \<open>now\<close> is
  dropped.
\<close>

theorem all_preprocess_keeps_ellipsis:
  "all_preprocess
     \<lparr>sent_tokenize = \<lambda>d. [d], word_tokenize = \<lambda>s. [''Wait'', ''...'', ''now''],
      stem = \<lambda>w. w\<rparr> (all_stopwords [''the'', ''now''] [''now'', ''however''])
     ''Wait ... now'' = [''wait'', ''...'']"
  by (simp add: all_preprocess_def all_stopwords_def tokenize_and_lowercase_def enumerate_eq_zip
      punctuation_def
      isupper_def lower_def char_lower_def char_isupper_def char_islower_def
      ascii_uppercase_def ascii_lowercase_def)

section \<open>Blank documents\<close>

text \<open>
  C9. NLTK's tokenizers find no word in a blank text. With tokenizers that behave so,
  the normalizer and the whole preprocessing return the empty token list on every
  document that is empty or has only whitespace characters; the notebook's own code has
  no operation that could raise on a string.
\<close>

theorem blank_document_no_tokens:
  assumes "\<forall>d. whitespace_only d \<longrightarrow> concat (map (word_tokenize L) (sent_tokenize L d)) = []"
    and "whitespace_only doc_str"
  shows "tokenize_and_lowercase L doc_str = [] \<and> all_preprocess L stopwords doc_str = []"
proof -
  from assms have "concat (map (word_tokenize L) (sent_tokenize L doc_str)) = []"
    by blast
  then have "tokenize_and_lowercase L doc_str = []"
    by (rule no_tokens_no_output)
  then show ?thesis by (simp add: all_preprocess_def)
qed

theorem blank_document_no_tokens_witness:
  "whitespace_only '''' \<and> whitespace_only [CHR 0x20, CHR 0x0A, CHR 0x20] \<and>
   tokenize_and_lowercase
     \<lparr>sent_tokenize = \<lambda>d. if whitespace_only d then [] else [d], word_tokenize = \<lambda>s. [s],
      stem = \<lambda>w. w\<rparr> '''' = [] \<and>
   all_preprocess
     \<lparr>sent_tokenize = \<lambda>d. if whitespace_only d then [] else [d], word_tokenize = \<lambda>s. [s],
      stem = \<lambda>w. w\<rparr> [''the''] [CHR 0x20, CHR 0x0A, CHR 0x20] = []"
proof -
  have w: "whitespace_only ''''" "whitespace_only [CHR 0x20, CHR 0x0A, CHR 0x20]"
    by (simp_all add: whitespace_only_def whitespace_def)
  show ?thesis
    using
      blank_document_no_tokens[where
        L = "\<lparr>sent_tokenize = \<lambda>d. if whitespace_only d then [] else [d],
              word_tokenize = \<lambda>s. [s], stem = \<lambda>w. w\<rparr>"
        and doc_str = "''''" and stopwords = "[''the'']"]
      blank_document_no_tokens[where
        L = "\<lparr>sent_tokenize = \<lambda>d. if whitespace_only d then [] else [d],
              word_tokenize = \<lambda>s. [s], stem = \<lambda>w. w\<rparr>"
        and doc_str = "[CHR 0x20, CHR 0x0A, CHR 0x20]" and stopwords = "[''the'']"]
    by (simp add: w)
qed

section \<open>Capitalised tokens inside a sentence\<close>




section \<open>Facts about the compaction\<close>

lemma mset_insert_desc: "mset (insert_desc x ys) = add_mset x (mset ys)"
  by (induction ys) simp_all

lemma mset_sort_values_desc: "mset (sort_values_desc s) = mset s"
  unfolding sort_values_desc_def by (induction s) (simp_all add: mset_insert_desc)

lemma set_insert_desc: "set (insert_desc x ys) = insert x (set ys)"
  by (induction ys) auto

lemma sorted_insert_desc:
  "sorted_wrt (\<lambda>a b. snd b \<le> snd a) ys \<Longrightarrow>
     sorted_wrt (\<lambda>a b. snd b \<le> snd a) (insert_desc x ys)"
  by (induction ys) (auto simp: set_insert_desc)

lemma sorted_sort_values_desc: "sorted_wrt (\<lambda>a b. snd b \<le> snd a) (sort_values_desc s)"
  unfolding sort_values_desc_def by (induction s) (simp_all add: sorted_insert_desc)

lemma length_sort_values_desc: "length (sort_values_desc s) = length s"
  using mset_sort_values_desc[of s] by (metis size_mset)

lemma set_sort_values_desc: "set (sort_values_desc s) = set s"
  using mset_sort_values_desc[of s] by (metis set_mset_mset)

lemma distinct_keys_sort_values_desc:
  assumes "distinct (map fst s)"
  shows "distinct (map fst (sort_values_desc s))"
proof -
  have "mset (map fst (sort_values_desc s)) = mset (map fst s)"
    by (simp add: mset_sort_values_desc)
  then have "distinct (map fst (sort_values_desc s)) \<longleftrightarrow> distinct (map fst s)"
    by (rule mset_eq_imp_distinct_iff)
  with assms show ?thesis by blast
qed

lemma length_nlargest: "length (nlargest n s) = min n (length s)"
  by (simp add: nlargest_def length_sort_values_desc min.commute)

lemma sorted_nlargest: "sorted_wrt (\<lambda>a b. snd b \<le> snd a) (nlargest n s)"
  unfolding nlargest_def by (rule sorted_wrt_take) (rule sorted_sort_values_desc)

lemma set_nlargest_all: "length s \<le> n \<Longrightarrow> set (nlargest n s) = set s"
  by (simp add: nlargest_def length_sort_values_desc set_sort_values_desc)

lemma distinct_keys_nlargest: "distinct (map fst s) \<Longrightarrow> distinct (map fst (nlargest n s))"
  unfolding nlargest_def by (simp add: distinct_keys_sort_values_desc flip: take_map)

lemma update_append_new: "k \<notin> fst ` set d \<Longrightarrow> AList.update k v d = d @ [(k, v)]"
  by (induction d) auto

lemma foldl_update_distinct:
  "distinct (map fst (d @ kvs)) \<Longrightarrow> foldl (\<lambda>d (k, v). AList.update k v d) d kvs = d @ kvs"
proof (induction kvs arbitrary: d)
  case Nil
  then show ?case by simp
next
  case (Cons p kvs)
  obtain k v where p: "p = (k, v)" by (cases p)
  from Cons.prems p have new: "k \<notin> fst ` set d" by auto
  from Cons.prems p have "distinct (map fst ((d @ [(k, v)]) @ kvs))" by simp
  then have "foldl (\<lambda>d (k, v). AList.update k v d) (d @ [(k, v)]) kvs = (d @ [(k, v)]) @ kvs"
    by (rule Cons.IH)
  with new p show ?case by (simp add: update_append_new)
qed

text \<open>A dict built from pairs with distinct keys holds exactly those pairs, in order.\<close>

lemma dict_of_distinct: "distinct (map fst kvs) \<Longrightarrow> dict_of kvs = kvs"
  unfolding dict_of_def using foldl_update_distinct[of "[]" kvs] by simp

lemma iterrows_row:
  assumes "(from_idx, sim_series) \<in> set (iterrows index columns data)"
  shows "from_idx \<in> set index \<and> (\<exists>row\<in>set data. sim_series = zip columns row)"
proof -
  from assms have "from_idx \<in> set index" and "sim_series \<in> set (map (zip columns) data)"
    unfolding iterrows_def by (auto dest: set_zip_leftD set_zip_rightD)
  then show ?thesis by auto
qed

lemma distinct_keys_iterrows:
  "distinct index \<Longrightarrow> distinct (map fst (iterrows index columns data))"
  unfolding iterrows_def by (simp add: map_fst_zip_take)

text \<open>
  Every entry of the result is a row of the matrix, labelled with the document ids and
  cut by \<open>nlargest\<close>; nothing else is done to it.
\<close>

lemma similarities_dict_entry:
  assumes "distinct index"
    and "(from_idx, neighbors) \<in> set (similarities_dict top_n index cosine_sims)"
  shows "from_idx \<in> set index \<and>
         (\<exists>row\<in>set cosine_sims. neighbors = nlargest top_n (zip index row))"
proof -
  let ?f = "\<lambda>(from_idx, sim_series). (from_idx, dict_of (nlargest top_n sim_series))"
  have keys: "map fst (map ?f (iterrows index index cosine_sims)) =
      map fst (iterrows index index cosine_sims)"
    by (simp add: case_prod_unfold comp_def)
  have "distinct (map fst (map ?f (iterrows index index cosine_sims)))"
    unfolding keys using assms(1) by (rule distinct_keys_iterrows)
  then have "similarities_dict top_n index cosine_sims = map ?f (iterrows index index cosine_sims)"
    unfolding similarities_dict_def by (rule dict_of_distinct)
  with assms(2) obtain sim_series where
      mem: "(from_idx, sim_series) \<in> set (iterrows index index cosine_sims)"
      and nb: "neighbors = dict_of (nlargest top_n sim_series)"
    by auto
  from iterrows_row[OF mem] obtain row where
      idx: "from_idx \<in> set index" and row: "row \<in> set cosine_sims"
      and ser: "sim_series = zip index row"
    by blast
  have "distinct (map fst (zip index row))"
    using assms(1) by (simp add: map_fst_zip_take)
  then have "dict_of (nlargest top_n (zip index row)) = nlargest top_n (zip index row)"
    by (intro dict_of_distinct distinct_keys_nlargest)
  with nb ser idx row show ?thesis by blast
qed

section \<open>The neighbor lists\<close>

text \<open>
  C6, as the notebook computes it. Over \<open>D\<close> documents with distinct ids and a
  \<open>D \<times> D\<close> similarity matrix, every neighbor list has at most \<open>min top_n D\<close>
  entries and its scores are in non-increasing order. The document's own entry is not
  filtered out: whenever \<open>D \<le> top_n\<close> it is in the document's own list.
\<close>

theorem similarities_dict_neighbors:
  assumes "distinct index"
    and "length cosine_sims = length index"
    and "\<forall>row\<in>set cosine_sims. length row = length index"
    and "(from_idx, neighbors) \<in> set (similarities_dict top_n index cosine_sims)"
  shows "length neighbors \<le> min top_n (length index) \<and>
         sorted_wrt (\<lambda>a b. snd b \<le> snd a) neighbors \<and>
         (length index \<le> top_n \<longrightarrow> from_idx \<in> fst ` set neighbors)"
proof -
  from similarities_dict_entry[OF assms(1) assms(4)] obtain row where
      idx: "from_idx \<in> set index" and row: "row \<in> set cosine_sims"
      and nb: "neighbors = nlargest top_n (zip index row)"
    by blast
  from row assms(3) have len: "length row = length index" by blast
  have "length neighbors \<le> min top_n (length index)"
    unfolding nb by (simp add: length_nlargest len)
  moreover have "sorted_wrt (\<lambda>a b. snd b \<le> snd a) neighbors"
    unfolding nb by (rule sorted_nlargest)
  moreover have "from_idx \<in> fst ` set neighbors" if "length index \<le> top_n"
  proof -
    from that len have "set neighbors = set (zip index row)"
      unfolding nb by (intro set_nlargest_all) simp
    moreover from idx len have "from_idx \<in> fst ` set (zip index row)"
      by (metis map_fst_zip set_map)
    ultimately show ?thesis by simp
  qed
  ultimately show ?thesis by blast
qed

theorem similarities_dict_neighbors_witness:
  "(0, [(0, 1), (1, 1 / 2)]) \<in> set (similarities_dict 100 [0::int, 1] [[1, 1 / 2], [1 / 2, 1::real]]) \<and>
   length [(0::int, 1::real), (1, 1 / 2)] \<le> min 100 (length [0::int, 1]) \<and>
   sorted_wrt (\<lambda>a b. snd b \<le> snd a) [(0::int, 1::real), (1, 1 / 2)] \<and>
   0 \<in> fst ` set [(0::int, 1::real), (1, 1 / 2)]"
proof -
  have ev: "similarities_dict 100 [0::int, 1] [[1, 1 / 2], [1 / 2, 1::real]] =
      [(0, [(0, 1), (1, 1 / 2)]), (1, [(1, 1), (0, 1 / 2)])]"
    by (simp add: similarities_dict_def dict_of_def nlargest_def sort_values_desc_def iterrows_def)
  show ?thesis
    using similarities_dict_neighbors[where index = "[0::int, 1]"
        and cosine_sims = "[[1, 1 / 2], [1 / 2, 1::real]]" and top_n = 100 and from_idx = 0
        and neighbors = "[(0, 1), (1, 1 / 2)]"]
    by (simp add: ev)
qed

text \<open>
  With two documents the list of document 0 has two entries, more than
  \<open>min top_n (D - 1) = 1\<close>, and the first of them is document 0 itself.
\<close>

theorem similarities_dict_keeps_self:
  "\<not> length (snd (similarities_dict 100 [0::int, 1] [[1, 1 / 2], [1 / 2, 1::real]] ! 0))
        \<le> min 100 (length [0::int, 1] - 1) \<and>
   0 \<in> fst ` set (snd (similarities_dict 100 [0::int, 1] [[1, 1 / 2], [1 / 2, 1::real]] ! 0))"
  by (simp add: similarities_dict_def dict_of_def nlargest_def sort_values_desc_def iterrows_def)

end
